theory Spec2Isabelle
  imports Main "HOL-Library.Sublist"
begin

section \<open>Text: the string operations the script uses\<close>

text \<open>
  A Python \<^verbatim>\<open>str\<close> is modelled as a \<^typ>\<open>string\<close>, one \<^typ>\<open>char\<close> per
  code point; the model covers text whose code points are below 256. On that range
  \<^verbatim>\<open>str.isspace\<close> holds of the code points 9 to 13, 28 to 32, 133 and 160, and
  \<^verbatim>\<open>str.lower\<close> adds 32 to the code points 65 to 90 and 192 to 222 other than 215.
\<close>

abbreviation dquote :: char where "dquote \<equiv> CHR 0x22"
abbreviation backslash :: char where "backslash \<equiv> CHR 0x5C"
abbreviation newline :: char where "newline \<equiv> CHR 0x0A"

definition isspace :: "char \<Rightarrow> bool" where
  "isspace c = (of_char c \<in> {9, 10, 11, 12, 13, 28, 29, 30, 31, 32, 133, 160 :: nat})"

definition lower_char :: "char \<Rightarrow> char" where
  "lower_char c =
     (let n = of_char c :: nat
      in if (65 \<le> n \<and> n \<le> 90) \<or> (192 \<le> n \<and> n \<le> 222 \<and> n \<noteq> 215)
         then char_of (n + 32) else c)"

text \<open>\<^verbatim>\<open>s.strip()\<close>: leading and trailing whitespace removed.\<close>

definition strip :: "string \<Rightarrow> string" where
  "strip s = rev (dropWhile isspace (rev (dropWhile isspace s)))"

text \<open>\<^verbatim>\<open>s.lower()\<close>.\<close>

definition lower :: "string \<Rightarrow> string" where
  "lower s = map lower_char s"

text \<open>\<^verbatim>\<open>s.startswith(p)\<close> is \<^term>\<open>prefix p s\<close>, \<^verbatim>\<open>s.endswith(p)\<close> is
  \<^term>\<open>suffix p s\<close>, and \<^verbatim>\<open>x in s\<close> on strings is \<^term>\<open>sublist x s\<close>.\<close>

text \<open>\<^verbatim>\<open>s[1:-1]\<close>: the slice from index 1 up to, not including, the last index.\<close>

definition slice_1_m1 :: "'a list \<Rightarrow> 'a list" where
  "slice_1_m1 s = drop 1 (take (length s - 1) s)"

text \<open>\<^verbatim>\<open>s.replace("\\n", "\n")\<close>: scanning from the left, each occurrence of the two
  characters backslash, \<^verbatim>\<open>n\<close> becomes one newline character.\<close>

fun replace_bsn :: "string \<Rightarrow> string" where
  "replace_bsn (a # b # s) =
     (if a = backslash \<and> b = CHR ''n'' then newline # replace_bsn s
      else a # replace_bsn (b # s))"
| "replace_bsn s = s"

section \<open>Dictionaries in insertion order\<close>

text \<open>
  A Python \<^verbatim>\<open>dict\<close> iterates in insertion order, and storing under a key that is
  already present keeps the key's position and replaces its value. The dictionary is an
  association list with distinct keys.
\<close>

fun dict_set :: "('k \<times> 'v) list \<Rightarrow> 'k \<Rightarrow> 'v \<Rightarrow> ('k \<times> 'v) list" where
  "dict_set [] k v = [(k, v)]"
| "dict_set ((k', v') # d) k v =
     (if k' = k then (k', v) # d else (k', v') # dict_set d k v)"

text \<open>\<^verbatim>\<open>d.get(k, default)\<close>.\<close>

definition dict_get :: "('k \<times> 'v) list \<Rightarrow> 'k \<Rightarrow> 'v \<Rightarrow> 'v" where
  "dict_get d k dflt = (case map_of d k of Some v \<Rightarrow> v | None \<Rightarrow> dflt)"

section \<open>Errors\<close>

text \<open>
  Every way the script stops with an exception is a value of this type:
  \<^item> \<open>KeyError\<close>: a missing key (\<^verbatim>\<open>os.environ["BMP_API_KEY"]\<close>, or a column label that
    the frame does not have);
  \<^item> \<open>RequestError\<close>: whatever \<^verbatim>\<open>requests.get\<close> raises (timeout, connection failure);
  \<^item> \<open>HTTPError\<close>: \<^verbatim>\<open>resp.raise_for_status()\<close> on a 4xx or 5xx status;
  \<^item> \<open>PandasError\<close>: whatever \<^verbatim>\<open>pd.read_csv\<close> raises;
  \<^item> \<open>EmptyResponse\<close>: \<^verbatim>\<open>RuntimeError("Empty response from BMP API")\<close>;
  \<^item> \<open>ParsedEmptyDataFrame\<close>: \<^verbatim>\<open>RuntimeError("Parsed empty DataFrame")\<close>;
  \<^item> \<open>ExpectedDateColumn cols\<close>:
    \<^verbatim>\<open>RuntimeError(f"Expected a 'Date' column, got {list(df.columns)}")\<close>;
  \<^item> \<open>NoMvrvColumn\<close>:
    \<^verbatim>\<open>RuntimeError("Could not determine MVRV column from response")\<close>.
\<close>

datatype error =
    KeyError string
  | RequestError string
  | HTTPError int
  | PandasError string
  | EmptyResponse
  | ParsedEmptyDataFrame
  | ExpectedDateColumn "string list"
  | NoMvrvColumn

section \<open>Data frames\<close>

text \<open>
  A cell of a frame read by \<^verbatim>\<open>pd.read_csv\<close> is missing (\<open>NaN\<close>), a number or a text.
  The numbers are the 64-bit integers and the 64-bit floats other than NaN; nothing below
  depends on what they are, so their type is the parameter \<open>'n\<close>. A frame has its column labels in order and its
  rows in order; a row gives the cell under each label (only the labels of the frame are
  ever read).
\<close>

datatype 'n cell = NaN | Num (the_num: 'n) | Str string

record 'n dataframe =
  columns :: "string list"
  rows :: "(string \<Rightarrow> 'n cell) list"

text \<open>\<^verbatim>\<open>df.empty\<close>: some axis has length 0.\<close>

definition df_empty :: "'n dataframe \<Rightarrow> bool" where
  "df_empty df = (columns df = [] \<or> rows df = [])"

text \<open>\<^verbatim>\<open>pd.notna(v)\<close>.\<close>

definition notna :: "'n cell \<Rightarrow> bool" where
  "notna c = (c \<noteq> NaN)"

text \<open>
  The library functions whose results the script depends on are parameters:
  \<^item> \<open>read_csv\<close>: \<^verbatim>\<open>pd.read_csv(io.StringIO(csv_text))\<close>, a frame or an exception;
  \<^item> \<open>parse_number\<close>: the number that \<^verbatim>\<open>pd.to_numeric\<close> reads from a text, \<open>None\<close> when
    the text is not a number;
  \<^item> \<open>astype_str\<close>: what \<^verbatim>\<open>Series.astype(str)\<close> makes of one cell;
  \<^item> \<open>to_float\<close>: \<^verbatim>\<open>float(v)\<close> on a number, the 64-bit float next to it (a float is
    left as it is, an integer beyond \<open>2^53\<close> is rounded).
\<close>

record 'n pandas =
  read_csv :: "string \<Rightarrow> error + 'n dataframe"
  parse_number :: "string \<Rightarrow> 'n option"
  astype_str :: "'n cell \<Rightarrow> 'n cell"
  to_float :: "'n \<Rightarrow> 'n"

text \<open>
  \<^verbatim>\<open>pd.to_numeric(series, errors="coerce")\<close> on one cell: a number stays, a missing cell
  stays missing, a text is parsed, and a text that does not parse becomes \<open>NaN\<close>.
\<close>

definition to_numeric_coerce :: "'n pandas \<Rightarrow> 'n cell \<Rightarrow> 'n cell" where
  "to_numeric_coerce lib c =
     (case c of
        NaN \<Rightarrow> NaN
      | Num x \<Rightarrow> Num x
      | Str s \<Rightarrow> (case parse_number lib s of Some x \<Rightarrow> Num x | None \<Rightarrow> NaN))"

text \<open>
  \<^verbatim>\<open>Series.astype(str)\<close> as pandas before version 3.0 does it: every element goes through
  \<^verbatim>\<open>str()\<close>, so a missing cell becomes the text \<^verbatim>\<open>nan\<close>. (From version 3.0 on a missing
  cell stays missing.) The parameter \<open>show_num\<close> is \<^verbatim>\<open>str()\<close> on a number.
\<close>

definition astype_str_pre3 :: "('n \<Rightarrow> string) \<Rightarrow> 'n cell \<Rightarrow> 'n cell" where
  "astype_str_pre3 show_num c =
     (case c of NaN \<Rightarrow> Str ''nan'' | Num x \<Rightarrow> Str (show_num x) | Str s \<Rightarrow> Str s)"

section \<open>Column resolution\<close>

text \<open>\<^verbatim>\<open>str(c).strip().lower()\<close>, the normalized name of a column.\<close>

definition normalize :: "string \<Rightarrow> string" where
  "normalize c = lower (strip c)"

text \<open>\<^verbatim>\<open>_normalize_cols\<close>: the dictionary comprehension stores the columns from left to
  right under their normalized names.\<close>

definition normalize_cols :: "'n dataframe \<Rightarrow> (string \<times> string) list" where
  "normalize_cols df = foldl (\<lambda>d c. dict_set d (normalize c) c) [] (columns df)"

text \<open>
  Two notions for stating facts about that dictionary: \<open>cols_dict\<close> is the same fold
  over a list of column labels, and \<open>latest cols k\<close> is the last label of \<open>cols\<close> whose
  normalized name is \<open>k\<close>.
\<close>

definition cols_dict :: "string list \<Rightarrow> (string \<times> string) list" where
  "cols_dict cols = foldl (\<lambda>d c. dict_set d (normalize c) c) [] cols"

definition latest :: "string list \<Rightarrow> string \<Rightarrow> string" where
  "latest cols k = last (filter (\<lambda>c. normalize c = k) cols)"

definition excluded :: "string set" where
  "excluded = {''date'', ''time'', ''timestamp'', ''price'', ''marketcap'', ''market_cap'',
     ''realized_cap'', ''realizedcap''}"

text \<open>
  \<^verbatim>\<open>_pick_mvrv_column\<close>. The candidates are collected in the dictionary's order; the
  loop for \<open>preferred\<close> stops at the first candidate with a hint; \<^verbatim>\<open>preferred or
  mvrv_candidates[0]\<close> takes the first candidate when \<open>preferred\<close> is \<open>None\<close> or the
  empty string.
\<close>

definition pick_mvrv_column :: "'n dataframe \<Rightarrow> error + string" where
  "pick_mvrv_column df =
     (let colmap = normalize_cols df;
          mvrv_candidates =
            map snd (filter (\<lambda>(lc, orig). lc \<notin> excluded \<and> sublist ''mvrv'' lc) colmap)
      in case mvrv_candidates of
           c0 # _ \<Rightarrow>
             (let preferred =
                    find (\<lambda>c. sublist ''short'' (normalize c) \<or> sublist ''sth'' (normalize c))
                      mvrv_candidates
              in case preferred of
                   Some p \<Rightarrow> Inr (if p \<noteq> [] then p else c0)
                 | None \<Rightarrow> Inr c0)
         | [] \<Rightarrow>
             (case filter (\<lambda>(lc, orig). lc \<notin> excluded) colmap of
                (lc, orig) # _ \<Rightarrow> Inr orig
              | [] \<Rightarrow> Inl NoMvrvColumn))"

section \<open>The pipeline of main\<close>

text \<open>Lines 80 to 89: the empty check, the optional unquoting, the newline escapes.\<close>

definition unwrap :: "string \<Rightarrow> error + string" where
  "unwrap raw_text =
     (if strip raw_text = [] then Inl EmptyResponse
      else
        let csv_quoted = strip raw_text;
            csv_quoted =
              (if prefix [dquote] csv_quoted \<and> suffix [dquote] csv_quoted
               then slice_1_m1 csv_quoted else csv_quoted)
        in Inr (replace_bsn csv_quoted))"

text \<open>
  Lines 97 to 107: the check for a date column, then the date, metric and price columns.
  The result is \<open>(date_col, mvrv_col, price_col)\<close>.
\<close>

definition resolve_columns :: "'n dataframe \<Rightarrow> error + (string \<times> string \<times> string option)" where
  "resolve_columns df =
     (if ''Date'' \<notin> set (columns df) \<and> ''date'' \<notin> set (map lower (columns df))
      then Inl (ExpectedDateColumn (columns df))
      else
        let colmap = normalize_cols df;
            date_col = dict_get colmap ''date'' ''Date''
        in case pick_mvrv_column df of
             Inl e \<Rightarrow> Inl e
           | Inr mvrv_col \<Rightarrow> Inr (date_col, mvrv_col, map_of colmap ''price''))"

text \<open>One entry of the output list: \<^verbatim>\<open>{"date": ..., "sth_mvrv": ..., "price": ...}\<close>,
  the key \<^verbatim>\<open>price\<close> being optional.\<close>

record 'n item =
  date :: "'n cell"
  sth_mvrv :: 'n
  price :: "'n option"

text \<open>
  Lines 109 to 130. \<^verbatim>\<open>df[keep_cols]\<close> raises \<open>KeyError\<close> on a label the frame does not
  have. The three column assignments run in the source's order, then \<^verbatim>\<open>dropna\<close>, then
  the loop over the rows that are left. \<^verbatim>\<open>float(v)\<close> is \<^const>\<open>to_float\<close> of the number
  in the cell, read with \<^const>\<open>the_num\<close>: the loop only sees cells that
  \<^const>\<open>to_numeric_coerce\<close> has produced and \<^verbatim>\<open>dropna\<close> or \<^verbatim>\<open>pd.notna\<close> has let
  through, which are numbers.
\<close>

definition make_item ::
  "'n pandas \<Rightarrow> string \<Rightarrow> string \<Rightarrow> string option \<Rightarrow> (string \<Rightarrow> 'n cell) \<Rightarrow> 'n item" where
  "make_item lib date_col mvrv_col price_col row =
     \<lparr>date = row date_col,
      sth_mvrv = to_float lib (the_num (row mvrv_col)),
      price = (case price_col of
                 None \<Rightarrow> None
               | Some p \<Rightarrow>
                   if notna (row p) then Some (to_float lib (the_num (row p))) else None)\<rparr>"

definition convert_row ::
  "'n pandas \<Rightarrow> string \<Rightarrow> string \<Rightarrow> string option \<Rightarrow> (string \<Rightarrow> 'n cell) \<Rightarrow> (string \<Rightarrow> 'n cell)" where
  "convert_row lib date_col mvrv_col price_col row =
     (let row = row(date_col := astype_str lib (row date_col));
          row = row(mvrv_col := to_numeric_coerce lib (row mvrv_col))
      in case price_col of
           None \<Rightarrow> row
         | Some p \<Rightarrow> row(p := to_numeric_coerce lib (row p)))"

definition build_records ::
  "'n pandas \<Rightarrow> 'n dataframe \<Rightarrow> string \<times> string \<times> string option \<Rightarrow> error + 'n item list" where
  "build_records lib df cm =
     (case cm of (date_col, mvrv_col, price_col) \<Rightarrow>
        let keep_cols = [date_col, mvrv_col] @ (case price_col of None \<Rightarrow> [] | Some p \<Rightarrow> [p])
        in case filter (\<lambda>c. c \<notin> set (columns df)) keep_cols of
             c # _ \<Rightarrow> Inl (KeyError c)
           | [] \<Rightarrow>
               (let converted = map (convert_row lib date_col mvrv_col price_col) (rows df);
                    kept = filter (\<lambda>row. notna (row date_col) \<and> notna (row mvrv_col)) converted
                in Inr (map (make_item lib date_col mvrv_col price_col) kept)))"

text \<open>The response of \<^verbatim>\<open>requests.get\<close>.\<close>

record response =
  status_code :: int
  resp_text :: string

definition API_URL :: string where
  "API_URL = ''https://api.bitcoinmagazinepro.com/metrics/short-term-holder-mvrv''"

text \<open>
  \<^verbatim>\<open>main\<close>, from the response text on (lines 80 to 130); the value is the list \<open>data\<close>
  that the script then writes to the output file.
\<close>

definition process_text :: "'n pandas \<Rightarrow> string \<Rightarrow> error + 'n item list" where
  "process_text lib raw_text =
     (case unwrap raw_text of
        Inl e \<Rightarrow> Inl e
      | Inr csv_text \<Rightarrow>
          (case read_csv lib csv_text of
             Inl e \<Rightarrow> Inl e
           | Inr df \<Rightarrow>
               if df_empty df then Inl ParsedEmptyDataFrame
               else (case resolve_columns df of
                       Inl e \<Rightarrow> Inl e
                     | Inr cm \<Rightarrow> build_records lib df cm)))"

text \<open>
  \<^verbatim>\<open>main\<close>: the environment is a map, and \<open>http_get url headers\<close> stands for
  \<^verbatim>\<open>requests.get(url, headers=headers, timeout=30)\<close>. \<^verbatim>\<open>raise_for_status\<close> raises on
  the statuses 400 to 599.
\<close>

definition main ::
  "(string \<rightharpoonup> string) \<Rightarrow> (string \<Rightarrow> (string \<times> string) list \<Rightarrow> error + response) \<Rightarrow>
     'n pandas \<Rightarrow> error + 'n item list" where
  "main environ http_get lib =
     (case environ ''BMP_API_KEY'' of
        None \<Rightarrow> Inl (KeyError ''BMP_API_KEY'')
      | Some api_key \<Rightarrow>
          (case http_get API_URL [(''Authorization'', ''Bearer '' @ api_key)] of
             Inl e \<Rightarrow> Inl e
           | Inr resp \<Rightarrow>
               if 400 \<le> status_code resp \<and> status_code resp < 600
               then Inl (HTTPError (status_code resp))
               else process_text lib (resp_text resp)))"

section \<open>Facts about the string operations\<close>

lemma isspace_lower_char: "isspace c \<Longrightarrow> lower_char c = c"
  by (auto simp: isspace_def lower_char_def Let_def)

lemma strip_Nil: "strip [] = []"
  by (simp add: strip_def)

lemma strip_is_sublist: "sublist (strip s) s"
proof -
  have "prefix (strip s) (dropWhile isspace s)"
    unfolding strip_def by (metis suffix_dropWhile suffix_to_prefix rev_rev_ident)
  then have "sublist (strip s) (dropWhile isspace s)" by simp
  moreover have "sublist (dropWhile isspace s) s" by simp
  ultimately show ?thesis by (rule sublist_order.order_trans)
qed

lemma strip_no_space_ends:
  assumes "s \<noteq> []" "\<not> isspace (hd s)" "\<not> isspace (last s)"
  shows "strip s = s"
proof -
  from assms have 1: "dropWhile isspace s = s" by (cases s) auto
  from assms have "rev s \<noteq> []" "\<not> isspace (hd (rev s))" by (auto simp: hd_rev)
  then have "dropWhile isspace (rev s) = rev s" by (cases "rev s") auto
  with 1 show ?thesis by (simp add: strip_def)
qed

lemma strip_ends:
  assumes "strip s \<noteq> []"
  shows "\<not> isspace (hd (strip s)) \<and> \<not> isspace (last (strip s))"
proof -
  let ?u = "dropWhile isspace s"
  let ?v = "dropWhile isspace (rev ?u)"
  from assms have v: "?v \<noteq> []" by (simp add: strip_def)
  then have hv: "\<not> isspace (hd ?v)" by (rule hd_dropWhile)
  from v have u: "?u \<noteq> []" by (metis dropWhile.simps(1) rev_is_Nil_conv)
  then have hu: "\<not> isspace (hd ?u)" by (rule hd_dropWhile)
  have "suffix ?v (rev ?u)" by (rule suffix_dropWhile)
  then obtain w where w: "rev ?u = w @ ?v" by (auto simp: suffix_def)
  then have "?u = rev ?v @ rev w" by (metis rev_append rev_rev_ident)
  with v have "hd ?u = hd (rev ?v)" by (cases "rev ?v") auto
  with hu have "\<not> isspace (hd (rev ?v))" by simp
  moreover have "last (rev ?v) = hd ?v" using v by (simp add: last_rev)
  ultimately show ?thesis using hv by (simp add: strip_def)
qed

lemma strip_idem: "strip (strip s) = strip s"
proof (cases "strip s = []")
  case True then show ?thesis by (simp add: strip_Nil)
next
  case False
  then show ?thesis using strip_ends[OF False] by (intro strip_no_space_ends) auto
qed

lemma slice_1_m1_wrapped: "slice_1_m1 (a # body @ [b]) = body"
  by (simp add: slice_1_m1_def)

lemma slice_1_m1_single: "slice_1_m1 [a] = []"
  by (simp add: slice_1_m1_def)

lemma suffix_last_wrapped: "suffix [b] (a # body @ [b])"
  by (metis append_Cons suffixI)

text \<open>Text without the escape is left as it is.\<close>

lemma replace_bsn_id: "\<not> sublist [backslash, CHR ''n''] s \<Longrightarrow> replace_bsn s = s"
proof (induction s rule: replace_bsn.induct)
  case (1 a b s)
  then show ?case by (auto simp: sublist_Cons_right)
qed simp_all

text \<open>An escape splits the text: the parts before and after it are treated on their own.\<close>

lemma replace_bsn_split:
  "replace_bsn (p @ backslash # CHR ''n'' # q) = replace_bsn p @ newline # replace_bsn q"
proof (induction p rule: replace_bsn.induct)
  case (1 a b s)
  then show ?case by auto
qed simp_all

text \<open>No escape is left in the result.\<close>

lemma replace_bsn_none_left: "\<not> sublist [backslash, CHR ''n''] (replace_bsn s)"
proof (induction s rule: replace_bsn.induct)
  case (1 a b s)
  show ?case
  proof (cases "a = backslash \<and> b = CHR ''n''")
    case True
    with 1 show ?thesis by (auto simp: sublist_Cons_right)
  next
    case False
    with 1 have ih: "\<not> sublist [backslash, CHR ''n''] (replace_bsn (b # s))" by simp
    have "replace_bsn (b # s) \<noteq> [] \<and>
        (hd (replace_bsn (b # s)) = b \<or> hd (replace_bsn (b # s)) = newline)"
      by (cases s) auto
    with False ih show ?thesis
      by (cases "replace_bsn (b # s)") (auto simp: sublist_Cons_right)
  qed
qed (simp_all add: sublist_Cons_right)

section \<open>The unwrapping of the response text\<close>

lemma process_text_empty:
  "strip raw_text = [] \<Longrightarrow> process_text lib raw_text = Inl EmptyResponse"
  by (simp add: process_text_def unwrap_def)

text \<open>
  When the request succeeds, \<^const>\<open>main\<close> is \<^const>\<open>process_text\<close> on the response text.
\<close>

lemma main_fetched:
  assumes "environ ''BMP_API_KEY'' = Some api_key"
    and "http_get API_URL [(''Authorization'', ''Bearer '' @ api_key)] = Inr resp"
    and "\<not> (400 \<le> status_code resp \<and> status_code resp < 600)"
  shows "main environ http_get lib = process_text lib (resp_text resp)"
  using assms by (auto simp: main_def)

text \<open>
  Claim C8. A response text that is empty after trimming whitespace makes the script raise
  the empty-response error: the unwrapping step returns it, and so does the run from the
  response text on, whatever the CSV parser and the number parser would do (neither is
  consulted).
\<close>

theorem empty_response_raises:
  "strip raw_text = [] \<Longrightarrow>
     unwrap raw_text = Inl EmptyResponse \<and>
     (\<forall>lib :: 'n pandas. process_text lib raw_text = Inl EmptyResponse)"
  by (simp add: process_text_def unwrap_def)

theorem empty_response_raises_witness:
  "strip ('' '' @ [newline]) = [] \<and> unwrap ('' '' @ [newline]) = Inl EmptyResponse \<and>
   process_text \<lparr>read_csv = (\<lambda>s. Inr \<lparr>columns = [''Date''], rows = [\<lambda>c. Str s]\<rparr>),
      parse_number = (\<lambda>s. Some (0::int)), astype_str = (\<lambda>c. c),
      to_float = (\<lambda>x. x)\<rparr> ('' '' @ [newline])
     = Inl EmptyResponse"
proof -
  have h: "strip ('' '' @ [newline]) = []" by code_simp
  from empty_response_raises [OF h] h show ?thesis by blast
qed

text \<open>
  Claim C7, as stated, at the trimmed text that is one double-quote character: the text
  begins and ends with a double quote, yet the result is the empty text, which is not the
  trimmed text with one leading and one trailing quote taken away (putting the two quotes
  back around the result does not give the trimmed text).
\<close>

theorem unwrap_single_quote_counterexample:
  "prefix [dquote] (strip [dquote]) \<and> suffix [dquote] (strip [dquote]) \<and>
   unwrap [dquote] = Inr [] \<and> strip [dquote] \<noteq> dquote # [] @ [dquote]"
  by code_simp

text \<open>
  Claim C7, amended. A trimmed text of the form quote, body, quote (so of two characters
  at least) loses exactly that leading and that trailing quote; a trimmed text that is the
  single character double quote becomes the empty text; any other non-empty trimmed text
  is kept. Then every backslash-n pair becomes a newline and nothing else changes:
  \<^const>\<open>replace_bsn\<close> treats the parts around a pair on their own, leaves a text without
  a pair as it is, and leaves no pair in its result.
\<close>

theorem unwrap_removes_quotes_and_escapes:
  "(\<forall>body. strip raw_text = dquote # body @ [dquote] \<longrightarrow> unwrap raw_text = Inr (replace_bsn body)) \<and>
   (strip raw_text = [dquote] \<longrightarrow> unwrap raw_text = Inr []) \<and>
   (strip raw_text \<noteq> [] \<and> \<not> (prefix [dquote] (strip raw_text) \<and> suffix [dquote] (strip raw_text)) \<longrightarrow>
      unwrap raw_text = Inr (replace_bsn (strip raw_text))) \<and>
   (\<forall>p q. replace_bsn (p @ backslash # CHR ''n'' # q) = replace_bsn p @ newline # replace_bsn q) \<and>
   (\<forall>s. \<not> sublist [backslash, CHR ''n''] s \<longrightarrow> replace_bsn s = s) \<and>
   (\<forall>s. \<not> sublist [backslash, CHR ''n''] (replace_bsn s))"
  by (auto simp: unwrap_def Let_def slice_1_m1_wrapped slice_1_m1_single replace_bsn_split
      replace_bsn_id replace_bsn_none_left suffix_last_wrapped simp del: replace_bsn.simps)

theorem unwrap_removes_quotes_and_escapes_witness:
  "unwrap ('' '' @ [dquote] @ ''Date,MVRV'' @ [backslash] @ ''n2024-01-01,1.5'' @ [backslash] @ ''n'' @ [dquote])
     = Inr (''Date,MVRV'' @ [newline] @ ''2024-01-01,1.5'' @ [newline]) \<and>
   unwrap [dquote] = Inr [] \<and>
   unwrap ''Date,MVRV'' = Inr ''Date,MVRV'' \<and>
   replace_bsn ''a,b'' = ''a,b''"
proof -
  let ?raw = "'' '' @ [dquote] @ ''Date,MVRV'' @ [backslash] @ ''n2024-01-01,1.5'' @ [backslash] @ ''n'' @ [dquote]"
  let ?body = "''Date,MVRV'' @ [backslash] @ ''n2024-01-01,1.5'' @ [backslash] @ ''n''"
  have h1: "strip ?raw = dquote # ?body @ [dquote]" by code_simp
  have r1: "replace_bsn ?body = ''Date,MVRV'' @ [newline] @ ''2024-01-01,1.5'' @ [newline]" by code_simp
  have h2: "strip [dquote] = [dquote]" by code_simp
  have h3: "strip ''Date,MVRV'' \<noteq> [] \<and>
      \<not> (prefix [dquote] (strip ''Date,MVRV'') \<and> suffix [dquote] (strip ''Date,MVRV''))"
    by code_simp
  have r3: "replace_bsn (strip ''Date,MVRV'') = ''Date,MVRV''" by code_simp
  have h4: "\<not> sublist [backslash, CHR ''n''] ''a,b''" by code_simp
  from unwrap_removes_quotes_and_escapes [of ?raw] h1 r1
  have c1: "unwrap ?raw = Inr (''Date,MVRV'' @ [newline] @ ''2024-01-01,1.5'' @ [newline])"
    by metis
  from unwrap_removes_quotes_and_escapes [of "[dquote]"] h2
  have c2: "unwrap [dquote] = Inr []" by blast
  from unwrap_removes_quotes_and_escapes [of "''Date,MVRV''"] h3 r3
  have c3: "unwrap ''Date,MVRV'' = Inr ''Date,MVRV''" by metis
  from unwrap_removes_quotes_and_escapes [of "[]"] h4
  have c4: "replace_bsn ''a,b'' = ''a,b''" by blast
  from c1 c2 c3 c4 show ?thesis by blast
qed

text \<open>
  Claim C3, as stated, at a plain CSV text that ends with a newline: the text is not
  wrapped in quotes and has no backslash-n pair, yet the result is not the input, because
  the trailing newline is trimmed.
\<close>

theorem unwrap_plain_csv_counterexample:
  "\<not> (prefix [dquote] (''Date,MVRV'' @ [newline] @ ''2024-01-01,1.5'' @ [newline]) \<and>
       suffix [dquote] (''Date,MVRV'' @ [newline] @ ''2024-01-01,1.5'' @ [newline])) \<and>
   \<not> sublist [backslash, CHR ''n''] (''Date,MVRV'' @ [newline] @ ''2024-01-01,1.5'' @ [newline]) \<and>
   unwrap (''Date,MVRV'' @ [newline] @ ''2024-01-01,1.5'' @ [newline])
     = Inr (''Date,MVRV'' @ [newline] @ ''2024-01-01,1.5'') \<and>
   unwrap (''Date,MVRV'' @ [newline] @ ''2024-01-01,1.5'' @ [newline])
     \<noteq> Inr (''Date,MVRV'' @ [newline] @ ''2024-01-01,1.5'' @ [newline])"
  by code_simp

text \<open>
  Claim C3, amended. For a text that is not blank, not wrapped in double quotes after
  trimming and without a backslash-n pair, the result is the input with its leading and
  trailing whitespace removed, and unwrapping that result again gives the same text.
\<close>

theorem unwrap_plain_csv:
  assumes "strip raw_text \<noteq> []"
    and "\<not> (prefix [dquote] (strip raw_text) \<and> suffix [dquote] (strip raw_text))"
    and "\<not> sublist [backslash, CHR ''n''] raw_text"
  shows "unwrap raw_text = Inr (strip raw_text) \<and> unwrap (strip raw_text) = Inr (strip raw_text)"
proof -
  have "\<not> sublist [backslash, CHR ''n''] (strip raw_text)"
    using assms(3) strip_is_sublist sublist_order.order_trans by blast
  then have r: "replace_bsn (strip raw_text) = strip raw_text" by (rule replace_bsn_id)
  from assms(1,2) r show ?thesis
    by (auto simp: unwrap_def Let_def strip_idem simp del: replace_bsn.simps)
qed

theorem unwrap_plain_csv_witness:
  "unwrap (''Date,MVRV'' @ [newline] @ ''2024-01-01,1.5'' @ [newline])
     = Inr (''Date,MVRV'' @ [newline] @ ''2024-01-01,1.5'') \<and>
   unwrap (''Date,MVRV'' @ [newline] @ ''2024-01-01,1.5'')
     = Inr (''Date,MVRV'' @ [newline] @ ''2024-01-01,1.5'')"
proof -
  let ?raw = "''Date,MVRV'' @ [newline] @ ''2024-01-01,1.5'' @ [newline]"
  have s: "strip ?raw = ''Date,MVRV'' @ [newline] @ ''2024-01-01,1.5''" by code_simp
  have h1: "strip ?raw \<noteq> []" by code_simp
  have h2: "\<not> (prefix [dquote] (strip ?raw) \<and> suffix [dquote] (strip ?raw))" by code_simp
  have h3: "\<not> sublist [backslash, CHR ''n''] ?raw" by code_simp
  from unwrap_plain_csv [OF h1 h2 h3] s show ?thesis by simp
qed

section \<open>The dictionary of normalized column names\<close>

lemma map_of_dict_set: "map_of (dict_set d k v) = (map_of d)(k \<mapsto> v)"
  by (induction d k v rule: dict_set.induct) auto

lemma keys_dict_set:
  "map fst (dict_set d k v) = (if k \<in> fst ` set d then map fst d else map fst d @ [k])"
  by (induction d k v rule: dict_set.induct) (auto simp: image_iff)

lemma set_dict_set: "set (dict_set d k v) \<subseteq> insert (k, v) (set d)"
  by (induction d k v rule: dict_set.induct) auto

lemma dict_set_fresh: "k \<notin> fst ` set d \<Longrightarrow> dict_set d k v = d @ [(k, v)]"
  by (induction d k v rule: dict_set.induct) auto

lemma find_Some_holds: "find P xs = Some x \<Longrightarrow> P x \<and> x \<in> set xs"
  by (induction xs) (auto split: if_splits)

lemma find_dict_set:
  "find (\<lambda>(k', v'). P k') (dict_set d k v) =
     (case find (\<lambda>(k', v'). P k') d of
        Some (k', v') \<Rightarrow> Some (k', if k' = k then v else v')
      | None \<Rightarrow> if P k then Some (k, v) else None)"
  by (induction d k v rule: dict_set.induct) (auto split: option.splits dest: find_Some_holds)

lemma find_app:
  "find P (xs @ ys) = (case find P xs of None \<Rightarrow> find P ys | Some x \<Rightarrow> Some x)"
  by (induction xs) auto

lemma normalize_cols_cols_dict: "normalize_cols df = cols_dict (columns df)"
  by (simp add: normalize_cols_def cols_dict_def)

lemma cols_dict_Nil: "cols_dict [] = []"
  by (simp add: cols_dict_def)

lemma cols_dict_snoc: "cols_dict (cs @ [c]) = dict_set (cols_dict cs) (normalize c) c"
  by (simp add: cols_dict_def)

lemma keys_cols_dict: "fst ` set (cols_dict cs) = normalize ` set cs"
proof (induction cs rule: rev_induct)
  case Nil
  then show ?case by (simp add: cols_dict_Nil)
next
  case (snoc c cs)
  have "fst ` set (dict_set (cols_dict cs) (normalize c) c)
      = set (map fst (dict_set (cols_dict cs) (normalize c) c))" by simp
  also have "\<dots> = insert (normalize c) (fst ` set (cols_dict cs))"
    by (auto simp: keys_dict_set)
  finally show ?case using snoc by (simp add: cols_dict_snoc)
qed

lemma distinct_keys_cols_dict: "distinct (map fst (cols_dict cs))"
proof (induction cs rule: rev_induct)
  case Nil
  then show ?case by (simp add: cols_dict_Nil)
next
  case (snoc c cs)
  then show ?case by (simp add: cols_dict_snoc keys_dict_set)
qed

lemma map_of_cols_dict:
  "map_of (cols_dict cs) k =
     (if k \<in> normalize ` set cs then Some (latest cs k) else None)"
proof (induction cs rule: rev_induct)
  case Nil
  then show ?case by (simp add: cols_dict_Nil)
next
  case (snoc c cs)
  then show ?case
    by (auto simp: cols_dict_snoc map_of_dict_set latest_def filter_empty_conv image_iff)
qed

lemma entries_cols_dict:
  assumes "(k, v) \<in> set (cols_dict cs)"
  shows "v = latest cs k \<and> k \<in> normalize ` set cs"
proof -
  from assms distinct_keys_cols_dict have "map_of (cols_dict cs) k = Some v" by simp
  then show ?thesis by (auto simp: map_of_cols_dict split: if_splits)
qed

lemma latest_in:
  assumes "k \<in> normalize ` set cs"
  shows "latest cs k \<in> set cs \<and> normalize (latest cs k) = k"
proof -
  from assms have ne: "filter (\<lambda>c. normalize c = k) cs \<noteq> []"
    by (auto simp: filter_empty_conv)
  then have "last (filter (\<lambda>c. normalize c = k) cs) \<in> set (filter (\<lambda>c. normalize c = k) cs)"
    by (rule last_in_set)
  then show ?thesis by (simp add: latest_def)
qed

lemma latest_unique:
  assumes "c \<in> set cs" "\<forall>c' \<in> set cs. normalize c' = normalize c \<longrightarrow> c' = c"
  shows "latest cs (normalize c) = c"
proof -
  from assms(1) have "normalize c \<in> normalize ` set cs" by simp
  from latest_in [OF this] assms(2) show ?thesis by auto
qed

lemma find_cols_dict:
  "find (\<lambda>(k, v). P k) (cols_dict cs) =
     (case find (\<lambda>c. P (normalize c)) cs of
        None \<Rightarrow> None
      | Some c0 \<Rightarrow> Some (normalize c0, latest cs (normalize c0)))"
proof (induction cs rule: rev_induct)
  case Nil
  then show ?case by (simp add: cols_dict_Nil)
next
  case (snoc c cs)
  show ?case
  proof (cases "find (\<lambda>c. P (normalize c)) cs")
    case None
    with snoc show ?thesis
      by (auto simp: cols_dict_snoc find_dict_set find_app latest_def)
  next
    case (Some c0)
    then have "c0 \<in> set cs" by (auto dest: find_Some_holds)
    with snoc Some show ?thesis
      by (auto simp: cols_dict_snoc find_dict_set find_app latest_def)
  qed
qed

section \<open>The metric column resolver\<close>

lemma excluded_no_mvrv: "k \<in> excluded \<Longrightarrow> \<not> sublist ''mvrv'' k"
  by (auto simp: excluded_def sublist_code)

lemma normalize_Nil: "normalize [] = []"
  by (simp add: normalize_def strip_def lower_def)

lemma hint_nonempty:
  "sublist ''short'' (normalize p) \<or> sublist ''sth'' (normalize p) \<Longrightarrow> p \<noteq> []"
  by (auto simp: normalize_Nil)

lemma find_map_filter:
  "find Q (map f (filter P xs)) = map_option f (find (\<lambda>x. P x \<and> Q (f x)) xs)"
  by (induction xs) auto

lemma case_map_filter:
  "(case map f (filter P xs) of [] \<Rightarrow> a | y # ys \<Rightarrow> b y) =
     (case find P xs of None \<Rightarrow> a | Some x \<Rightarrow> b (f x))"
  by (induction xs) auto

lemma case_filter_find:
  "(case filter P xs of [] \<Rightarrow> a | y # ys \<Rightarrow> b y) =
     (case find P xs of None \<Rightarrow> a | Some x \<Rightarrow> b x)"
  by (induction xs) auto

lemma find_eq_on_set: "(\<And>x. x \<in> set xs \<Longrightarrow> P x = Q x) \<Longrightarrow> find P xs = find Q xs"
  by (induction xs) auto

lemma entry_normalize:
  assumes "(k, v) \<in> set (cols_dict cs)"
  shows "normalize v = k \<and> v \<in> set cs \<and> v = latest cs k"
  using entries_cols_dict [OF assms] latest_in [of k cs] by auto

text \<open>The resolver in terms of the dictionary's first entries.\<close>

lemma pick_mvrv_column_dict:
  "pick_mvrv_column df =
     (case find (\<lambda>(k, v). sublist ''mvrv'' k) (cols_dict (columns df)) of
        Some (k0, c0) \<Rightarrow>
          (case find (\<lambda>(k, v). sublist ''mvrv'' k \<and> (sublist ''short'' k \<or> sublist ''sth'' k))
                  (cols_dict (columns df)) of
             Some (k, p) \<Rightarrow> Inr p
           | None \<Rightarrow> Inr c0)
      | None \<Rightarrow>
          (case find (\<lambda>(k, v). k \<notin> excluded) (cols_dict (columns df)) of
             Some (k, v) \<Rightarrow> Inr v
           | None \<Rightarrow> Inl NoMvrvColumn))"
proof -
  let ?d = "cols_dict (columns df)"
  let ?M = "\<lambda>(lc, orig). lc \<notin> excluded \<and> sublist ''mvrv'' lc"
  let ?H = "\<lambda>c. sublist ''short'' (normalize c) \<or> sublist ''sth'' (normalize c)"
  have m: "find ?M ?d = find (\<lambda>(k, v). sublist ''mvrv'' k) ?d"
    by (rule find_eq_on_set) (auto dest: excluded_no_mvrv)
  have h: "find (\<lambda>x. ?M x \<and> ?H (snd x)) ?d
      = find (\<lambda>(k, v). sublist ''mvrv'' k \<and> (sublist ''short'' k \<or> sublist ''sth'' k)) ?d"
    by (rule find_eq_on_set) (auto dest: excluded_no_mvrv entry_normalize)
  have e: "(case filter (\<lambda>(lc, orig). lc \<notin> excluded) ?d of
              [] \<Rightarrow> Inl NoMvrvColumn | (lc, orig) # x \<Rightarrow> Inr orig)
      = (case find (\<lambda>(k, v). k \<notin> excluded) ?d of
           Some (k, v) \<Rightarrow> Inr v | None \<Rightarrow> Inl NoMvrvColumn)"
    using case_filter_find [of "Inl NoMvrvColumn" "\<lambda>(lc, orig). Inr orig"
        "\<lambda>(lc, orig). lc \<notin> excluded" ?d]
    by (auto split: list.splits option.splits prod.splits)
  show ?thesis
  proof (cases "find (\<lambda>(k, v). sublist ''mvrv'' k) ?d")
    case None
    then have "filter ?M ?d = []"
      using m by (auto simp: find_None_iff filter_empty_conv)
    with None e show ?thesis
      by (simp add: pick_mvrv_column_def normalize_cols_cols_dict)
  next
    case (Some kc)
    obtain k0 c0 where kc: "kc = (k0, c0)" by (cases kc)
    from Some m kc have f: "find ?M ?d = Some (k0, c0)" by simp
    then obtain rest where fl: "map snd (filter ?M ?d) = c0 # rest"
      using case_map_filter [of "None" "\<lambda>y. Some y" snd ?M ?d]
      by (cases "map snd (filter ?M ?d)") auto
    have pref: "find ?H (map snd (filter ?M ?d))
        = map_option snd (find (\<lambda>(k, v). sublist ''mvrv'' k \<and> (sublist ''short'' k \<or> sublist ''sth'' k)) ?d)"
      using find_map_filter [of ?H snd ?M ?d] h by simp
    show ?thesis
    proof (cases "find (\<lambda>(k, v). sublist ''mvrv'' k \<and> (sublist ''short'' k \<or> sublist ''sth'' k)) ?d")
      case None
      with Some kc fl pref show ?thesis
        by (simp add: pick_mvrv_column_def normalize_cols_cols_dict Let_def)
    next
      case (Some kp)
      obtain k p where kp: "kp = (k, p)" by (cases kp)
      from Some kp have "(k, p) \<in> set ?d \<and> (sublist ''short'' k \<or> sublist ''sth'' k)"
        by (auto dest: find_Some_holds)
      then have "p \<noteq> []" using entry_normalize hint_nonempty by blast
      with \<open>find (\<lambda>(k, v). sublist ''mvrv'' k) ?d = Some kc\<close> Some kp kc fl pref show ?thesis
        by (simp add: pick_mvrv_column_def normalize_cols_cols_dict Let_def)
    qed
  qed
qed

text \<open>The resolver in terms of the column labels in their original order.\<close>

lemma pick_mvrv_column_cols:
  "pick_mvrv_column df =
     (case find (\<lambda>c. sublist ''mvrv'' (normalize c)) (columns df) of
        Some c0 \<Rightarrow>
          (case find (\<lambda>c. sublist ''mvrv'' (normalize c) \<and>
                        (sublist ''short'' (normalize c) \<or> sublist ''sth'' (normalize c)))
                  (columns df) of
             Some p \<Rightarrow> Inr (latest (columns df) (normalize p))
           | None \<Rightarrow> Inr (latest (columns df) (normalize c0)))
      | None \<Rightarrow>
          (case find (\<lambda>c. normalize c \<notin> excluded) (columns df) of
             Some c \<Rightarrow> Inr (latest (columns df) (normalize c))
           | None \<Rightarrow> Inl NoMvrvColumn))"
  unfolding pick_mvrv_column_dict
  by (simp add: find_cols_dict [of "\<lambda>k. sublist ''mvrv'' k"]
      find_cols_dict [of "\<lambda>k. sublist ''mvrv'' k \<and> (sublist ''short'' k \<or> sublist ''sth'' k)"]
      find_cols_dict [of "\<lambda>k. k \<notin> excluded"] split: option.splits)


lemma find_hint_imp_find_mvrv:
  "find (\<lambda>c. sublist ''mvrv'' (normalize c) \<and> H c) cs = Some p \<Longrightarrow>
     \<exists>c0. find (\<lambda>c. sublist ''mvrv'' (normalize c)) cs = Some c0"
  by (induction cs) (auto split: if_splits)

section \<open>The metric column when a column is named exactly mvrv\<close>

text \<open>
  Claim C1, as stated, on the non-empty table with the columns \<open>mvrv\<close> and \<open>sth_mvrv\<close>:
  the first column's normalized name is exactly \<open>mvrv\<close>, yet the resolver returns the
  other column, because a name with the hint \<open>sth\<close> is preferred. The resolver has no
  rule for an exact name.
\<close>

theorem pick_exact_mvrv_counterexample:
  "\<not> df_empty \<lparr>columns = [''mvrv'', ''sth_mvrv''], rows = [\<lambda>c. Num (1::int)]\<rparr> \<and>
   ''mvrv'' \<in> set (columns \<lparr>columns = [''mvrv'', ''sth_mvrv''], rows = [\<lambda>c. Num (1::int)]\<rparr>) \<and>
   normalize ''mvrv'' = ''mvrv'' \<and>
   pick_mvrv_column \<lparr>columns = [''mvrv'', ''sth_mvrv''], rows = [\<lambda>c. Num (1::int)]\<rparr>
     = Inr ''sth_mvrv'' \<and>
   pick_mvrv_column \<lparr>columns = [''mvrv'', ''sth_mvrv''], rows = [\<lambda>c. Num (1::int)]\<rparr>
     \<noteq> Inr ''mvrv''"
  by code_simp

lemma latest_member:
  assumes "c \<in> set cs"
  shows "latest cs (normalize c) \<in> set cs \<and> normalize (latest cs (normalize c)) = normalize c"
proof -
  from assms have "normalize c \<in> normalize ` set cs" by (rule imageI)
  then show ?thesis by (rule latest_in)
qed

lemma find_None_none: "find P xs = None \<Longrightarrow> x \<in> set xs \<Longrightarrow> \<not> P x"
  by (induction xs) (auto split: if_splits)

lemma find_none_None: "(\<And>x. x \<in> set xs \<Longrightarrow> \<not> P x) \<Longrightarrow> find P xs = None"
  by (induction xs) auto

text \<open>
  Claim C1, amended. In a table with a column \<open>c\<close> whose normalized name is exactly
  \<open>mvrv\<close>, the resolver succeeds and returns a column whose normalized name contains
  \<open>mvrv\<close>. It returns \<open>c\<close> itself when \<open>c\<close> is the first column, in original order,
  whose normalized name contains \<open>mvrv\<close>, no other column has the normalized name
  \<open>mvrv\<close>, and no column's normalized name contains \<open>mvrv\<close> together with \<open>short\<close>
  or \<open>sth\<close>.
\<close>

theorem pick_exact_mvrv:
  assumes "c \<in> set (columns df)" and "normalize c = ''mvrv''"
  shows "(\<exists>r. pick_mvrv_column df = Inr r \<and> r \<in> set (columns df) \<and>
            sublist ''mvrv'' (normalize r)) \<and>
         (find (\<lambda>c'. sublist ''mvrv'' (normalize c')) (columns df) = Some c \<and>
          (\<forall>c' \<in> set (columns df). normalize c' = ''mvrv'' \<longrightarrow> c' = c) \<and>
          (\<forall>c' \<in> set (columns df). sublist ''mvrv'' (normalize c') \<longrightarrow>
             \<not> (sublist ''short'' (normalize c') \<or> sublist ''sth'' (normalize c')))
          \<longrightarrow> pick_mvrv_column df = Inr c)"
proof (rule conjI)
  let ?cs = "columns df"
  let ?M = "\<lambda>c. sublist ''mvrv'' (normalize c)"
  let ?MH = "\<lambda>c. sublist ''mvrv'' (normalize c) \<and>
                (sublist ''short'' (normalize c) \<or> sublist ''sth'' (normalize c))"
  from assms(2) have "?M c" by (simp add: sublist_code)
  with assms(1) have "find ?M ?cs \<noteq> None" using find_None_none [of ?M ?cs c] by blast
  then obtain c0 where c0: "find ?M ?cs = Some c0" by blast
  then have c0p: "?M c0 \<and> c0 \<in> set ?cs" by (rule find_Some_holds)
  show "\<exists>r. pick_mvrv_column df = Inr r \<and> r \<in> set ?cs \<and> sublist ''mvrv'' (normalize r)"
  proof (cases "find ?MH ?cs")
    case None
    with c0 have "pick_mvrv_column df = Inr (latest ?cs (normalize c0))"
      by (simp add: pick_mvrv_column_cols)
    moreover from c0p have "latest ?cs (normalize c0) \<in> set ?cs \<and>
        normalize (latest ?cs (normalize c0)) = normalize c0"
      using latest_member by blast
    ultimately show ?thesis using c0p by metis
  next
    case (Some p)
    then have pp: "?MH p \<and> p \<in> set ?cs" by (rule find_Some_holds)
    from Some c0 have "pick_mvrv_column df = Inr (latest ?cs (normalize p))"
      by (simp add: pick_mvrv_column_cols)
    moreover from pp have "latest ?cs (normalize p) \<in> set ?cs \<and>
        normalize (latest ?cs (normalize p)) = normalize p"
      using latest_member by blast
    ultimately show ?thesis using pp by metis
  qed
next
  let ?cs = "columns df"
  let ?M = "\<lambda>c. sublist ''mvrv'' (normalize c)"
  let ?MH = "\<lambda>c. sublist ''mvrv'' (normalize c) \<and>
                (sublist ''short'' (normalize c) \<or> sublist ''sth'' (normalize c))"
  show "find ?M ?cs = Some c \<and>
          (\<forall>c' \<in> set ?cs. normalize c' = ''mvrv'' \<longrightarrow> c' = c) \<and>
          (\<forall>c' \<in> set ?cs. sublist ''mvrv'' (normalize c') \<longrightarrow>
             \<not> (sublist ''short'' (normalize c') \<or> sublist ''sth'' (normalize c')))
          \<longrightarrow> pick_mvrv_column df = Inr c"
  proof (intro impI, elim conjE)
    assume f: "find ?M ?cs = Some c"
      and u: "\<forall>c' \<in> set ?cs. normalize c' = ''mvrv'' \<longrightarrow> c' = c"
      and n: "\<forall>c' \<in> set ?cs. sublist ''mvrv'' (normalize c') \<longrightarrow>
             \<not> (sublist ''short'' (normalize c') \<or> sublist ''sth'' (normalize c'))"
    from n have "find ?MH ?cs = None" by (intro find_none_None) blast
    with f have "pick_mvrv_column df = Inr (latest ?cs (normalize c))"
      by (simp add: pick_mvrv_column_cols)
    moreover have "\<forall>c' \<in> set ?cs. normalize c' = normalize c \<longrightarrow> c' = c"
      unfolding assms(2) by (rule u)
    then have "latest ?cs (normalize c) = c"
      by (rule latest_unique [OF assms(1)])
    ultimately show "pick_mvrv_column df = Inr c" by simp
  qed
qed

theorem pick_exact_mvrv_witness:
  "pick_mvrv_column \<lparr>columns = [''Date'', '' MVRV '', ''mvrv_z'', ''Price''], rows = [\<lambda>c. Num (1::int)]\<rparr>
     = Inr '' MVRV ''"
proof -
  let ?df = "\<lparr>columns = [''Date'', '' MVRV '', ''mvrv_z'', ''Price''], rows = [\<lambda>c. Num (1::int)]\<rparr>"
  have h1: "'' MVRV '' \<in> set (columns ?df)" by simp
  have h2: "normalize '' MVRV '' = ''mvrv''" by code_simp
  have h3: "find (\<lambda>c'. sublist ''mvrv'' (normalize c')) (columns ?df) = Some '' MVRV '' \<and>
          (\<forall>c' \<in> set (columns ?df). normalize c' = ''mvrv'' \<longrightarrow> c' = '' MVRV '') \<and>
          (\<forall>c' \<in> set (columns ?df). sublist ''mvrv'' (normalize c') \<longrightarrow>
             \<not> (sublist ''short'' (normalize c') \<or> sublist ''sth'' (normalize c')))"
    by code_simp
  from pick_exact_mvrv [OF h1 h2] h3 show ?thesis by blast
qed

section \<open>The order in which the resolver takes the columns\<close>

lemma latest_distinct_names:
  assumes "distinct (map normalize cs)" and "c \<in> set cs"
  shows "latest cs (normalize c) = c"
proof -
  from assms(1) have "inj_on normalize (set cs)" by (simp add: distinct_map)
  with assms(2) have "\<forall>c' \<in> set cs. normalize c' = normalize c \<longrightarrow> c' = c"
    by (meson inj_onD)
  with assms(2) show ?thesis by (rule latest_unique)
qed

text \<open>
  In a table where no two columns share a normalized name, the resolver goes by the
  original column order: with a column whose normalized name contains \<open>mvrv\<close> (\<open>c0\<close>
  being the first), it returns the first column whose normalized name contains \<open>mvrv\<close>
  and also \<open>short\<close> or \<open>sth\<close>, or \<open>c0\<close> when there is none.
\<close>

lemma pick_prefers_hint_distinct_names:
  assumes "distinct (map normalize (columns df))"
    and "find (\<lambda>c. sublist ''mvrv'' (normalize c)) (columns df) = Some c0"
  shows "pick_mvrv_column df =
     Inr (case find (\<lambda>c. sublist ''mvrv'' (normalize c) \<and>
                      (sublist ''short'' (normalize c) \<or> sublist ''sth'' (normalize c)))
                (columns df) of
            Some p \<Rightarrow> p
          | None \<Rightarrow> c0)"
proof (cases "find (\<lambda>c. sublist ''mvrv'' (normalize c) \<and>
                      (sublist ''short'' (normalize c) \<or> sublist ''sth'' (normalize c)))
                (columns df)")
  case None
  from assms(2) have "c0 \<in> set (columns df)" by (blast dest: find_Some_holds)
  with assms(1) have "latest (columns df) (normalize c0) = c0" by (rule latest_distinct_names)
  with None assms(2) show ?thesis by (simp add: pick_mvrv_column_cols)
next
  case (Some p)
  then have "p \<in> set (columns df)" by (blast dest: find_Some_holds)
  with assms(1) have "latest (columns df) (normalize p) = p" by (rule latest_distinct_names)
  with Some assms(2) show ?thesis by (simp add: pick_mvrv_column_cols)
qed

text \<open>
  In such a table without any \<open>mvrv\<close> name, the resolver returns the first column whose
  normalized name is not excluded, and fails when there is none.
\<close>

lemma pick_fallback_distinct_names:
  assumes "distinct (map normalize (columns df))"
    and "find (\<lambda>c. sublist ''mvrv'' (normalize c)) (columns df) = None"
  shows "pick_mvrv_column df =
     (case find (\<lambda>c. normalize c \<notin> excluded) (columns df) of
        Some c \<Rightarrow> Inr c
      | None \<Rightarrow> Inl NoMvrvColumn)"
proof (cases "find (\<lambda>c. normalize c \<notin> excluded) (columns df)")
  case None
  with assms(2) show ?thesis by (simp add: pick_mvrv_column_cols)
next
  case (Some c)
  then have "c \<in> set (columns df)" by (blast dest: find_Some_holds)
  with assms(1) have "latest (columns df) (normalize c) = c" by (rule latest_distinct_names)
  with Some assms(2) show ?thesis by (simp add: pick_mvrv_column_cols)
qed

text \<open>When every column's normalized name is excluded, the resolver fails.\<close>

lemma pick_all_excluded:
  assumes "\<forall>c \<in> set (columns df). normalize c \<in> excluded"
  shows "pick_mvrv_column df = Inl NoMvrvColumn"
proof -
  from assms have "find (\<lambda>c. normalize c \<notin> excluded) (columns df) = None"
    by (intro find_none_None) blast
  moreover from assms have "find (\<lambda>c. sublist ''mvrv'' (normalize c)) (columns df) = None"
    by (intro find_none_None) (blast dest: excluded_no_mvrv)
  ultimately show ?thesis by (simp add: pick_mvrv_column_cols)
qed

text \<open>
  Claim C4 says that, among the columns whose normalized name contains \<open>mvrv\<close>, the
  resolver returns the first one in original column order that also contains \<open>short\<close> or
  \<open>sth\<close>. The run below is on a table whose first and third columns differ only in case:
  the first such column in original order is \<open>STH_MVRV\<close>, and among the columns that the
  dictionary holds it is \<open>short_mvrv\<close>, while the first one in the dictionary's order is
  \<open>sth_mvrv\<close>; the resolver returns \<open>sth_mvrv\<close>, the third column. The loops of the
  resolver go over the dictionary, which keeps a repeated name at the place of its first
  column and gives it its last column.
\<close>

theorem pick_hint_duplicate_names:
  "find (\<lambda>c. sublist ''mvrv'' (normalize c) \<and>
            (sublist ''short'' (normalize c) \<or> sublist ''sth'' (normalize c)))
     (columns \<lparr>columns = [''STH_MVRV'', ''short_mvrv'', ''sth_mvrv''], rows = [\<lambda>c. Num (1::int)]\<rparr>)
     = Some ''STH_MVRV'' \<and>
   find (\<lambda>c. sublist ''mvrv'' (normalize c) \<and>
            (sublist ''short'' (normalize c) \<or> sublist ''sth'' (normalize c)))
     (map snd (normalize_cols
        \<lparr>columns = [''STH_MVRV'', ''short_mvrv'', ''sth_mvrv''], rows = [\<lambda>c. Num (1::int)]\<rparr>))
     = Some ''sth_mvrv'' \<and>
   find (\<lambda>c. sublist ''mvrv'' (normalize c) \<and>
            (sublist ''short'' (normalize c) \<or> sublist ''sth'' (normalize c)))
     (filter (\<lambda>c. c \<in> snd ` set (normalize_cols
          \<lparr>columns = [''STH_MVRV'', ''short_mvrv'', ''sth_mvrv''], rows = [\<lambda>c. Num (1::int)]\<rparr>))
        [''STH_MVRV'', ''short_mvrv'', ''sth_mvrv''])
     = Some ''short_mvrv'' \<and>
   pick_mvrv_column
     \<lparr>columns = [''STH_MVRV'', ''short_mvrv'', ''sth_mvrv''], rows = [\<lambda>c. Num (1::int)]\<rparr>
     = Inr ''sth_mvrv''"
  by code_simp

text \<open>
  Claim C5 says that, when no column name contains \<open>mvrv\<close>, the resolver returns the
  first column in original column order whose normalized name is not excluded, as the
  comment of line 60 does. The run below is on a table without any \<open>mvrv\<close> name whose
  second and fourth columns differ only in case: the first column in original order whose
  normalized name is not excluded is \<open>Foo\<close>, and among the columns that the dictionary
  holds it is \<open>bar\<close>; the resolver returns \<open>foo\<close>, the fourth column.
\<close>

theorem pick_fallback_duplicate_names:
  "find (\<lambda>c. sublist ''mvrv'' (normalize c))
     (columns \<lparr>columns = [''Date'', ''Foo'', ''bar'', ''foo''], rows = [\<lambda>c. Num (1::int)]\<rparr>) = None \<and>
   find (\<lambda>c. normalize c \<notin> excluded)
     (columns \<lparr>columns = [''Date'', ''Foo'', ''bar'', ''foo''], rows = [\<lambda>c. Num (1::int)]\<rparr>)
     = Some ''Foo'' \<and>
   find (\<lambda>c. normalize c \<notin> excluded)
     (filter (\<lambda>c. c \<in> snd ` set (normalize_cols
          \<lparr>columns = [''Date'', ''Foo'', ''bar'', ''foo''], rows = [\<lambda>c. Num (1::int)]\<rparr>))
        [''Date'', ''Foo'', ''bar'', ''foo''])
     = Some ''bar'' \<and>
   pick_mvrv_column \<lparr>columns = [''Date'', ''Foo'', ''bar'', ''foo''], rows = [\<lambda>c. Num (1::int)]\<rparr>
     = Inr ''foo''"
  by code_simp

section \<open>The date, metric and price columns\<close>

lemma normalize_Date: "normalize ''Date'' = ''date''"
  by code_simp

lemma not_isspace_d: "\<not> isspace (CHR ''d'')"
  by code_simp

lemma not_isspace_e: "\<not> isspace (CHR ''e'')"
  by code_simp

lemma lower_date_strip:
  assumes "lower c = ''date''"
  shows "strip c = c"
proof -
  from assms have m: "map lower_char c = ''date''" by (simp add: lower_def)
  then have ne: "c \<noteq> []" by auto
  from m ne have "lower_char (hd c) = CHR ''d''" by (metis hd_map list.sel(1))
  then have h: "\<not> isspace (hd c)" using isspace_lower_char not_isspace_d by metis
  from m ne have "lower_char (last c) = last ''date''" by (metis last_map)
  then have "lower_char (last c) = CHR ''e''" by simp
  then have l: "\<not> isspace (last c)" using isspace_lower_char not_isspace_e by metis
  from ne h l show ?thesis by (rule strip_no_space_ends)
qed

lemma date_check_normalize:
  assumes "''Date'' \<in> set cs \<or> ''date'' \<in> set (map lower cs)"
  shows "''date'' \<in> normalize ` set cs"
proof -
  from assms consider "''Date'' \<in> set cs" | c where "c \<in> set cs" "lower c = ''date''"
    by auto
  then show ?thesis
  proof cases
    case 1
    then show ?thesis using normalize_Date by (metis imageI)
  next
    case 2
    then have "normalize c = ''date''" by (simp add: normalize_def lower_date_strip)
    with 2(1) show ?thesis by (metis imageI)
  qed
qed

lemma date_in_excluded: "''date'' \<in> excluded"
  by (simp add: excluded_def)

lemma price_in_excluded: "''price'' \<in> excluded"
  by (simp add: excluded_def)

text \<open>What the resolver returns is a column of the table that the dictionary holds.\<close>

lemma pick_mvrv_column_result:
  assumes "pick_mvrv_column df = Inr m"
  shows "m \<in> set (columns df) \<and> normalize m \<notin> excluded \<and>
         m = latest (columns df) (normalize m)"
proof -
  let ?cs = "columns df"
  let ?M = "\<lambda>c. sublist ''mvrv'' (normalize c)"
  let ?MH = "\<lambda>c. sublist ''mvrv'' (normalize c) \<and>
                (sublist ''short'' (normalize c) \<or> sublist ''sth'' (normalize c))"
  let ?E = "\<lambda>c. normalize c \<notin> excluded"
  have "\<exists>x. x \<in> set ?cs \<and> normalize x \<notin> excluded \<and> m = latest ?cs (normalize x)"
  proof (cases "find ?M ?cs")
    case None
    show ?thesis
    proof (cases "find ?E ?cs")
      case n: None
      with None assms show ?thesis by (simp add: pick_mvrv_column_cols)
    next
      case (Some a)
      with None assms have "m = latest ?cs (normalize a)" by (simp add: pick_mvrv_column_cols)
      moreover from Some have "?E a \<and> a \<in> set ?cs" by (rule find_Some_holds)
      ultimately show ?thesis by blast
    qed
  next
    case (Some a)
    then have a: "?M a \<and> a \<in> set ?cs" by (rule find_Some_holds)
    show ?thesis
    proof (cases "find ?MH ?cs")
      case None
      with Some assms have "m = latest ?cs (normalize a)" by (simp add: pick_mvrv_column_cols)
      with a excluded_no_mvrv show ?thesis by blast
    next
      case b: (Some b)
      then have "?MH b \<and> b \<in> set ?cs" by (rule find_Some_holds)
      moreover from Some b assms have "m = latest ?cs (normalize b)"
        by (simp add: pick_mvrv_column_cols)
      ultimately show ?thesis using excluded_no_mvrv by blast
    qed
  qed
  then obtain x where x: "x \<in> set ?cs" "normalize x \<notin> excluded" "m = latest ?cs (normalize x)"
    by blast
  from latest_member [OF x(1)] x show ?thesis by simp
qed

text \<open>What a successful resolution returns.\<close>

lemma resolve_columns_result:
  assumes "resolve_columns df = Inr (d, m, p)"
  shows "''date'' \<in> normalize ` set (columns df) \<and>
         d = latest (columns df) ''date'' \<and>
         map_of (normalize_cols df) ''date'' = Some d \<and>
         pick_mvrv_column df = Inr m \<and>
         p = map_of (normalize_cols df) ''price''"
proof -
  let ?cs = "columns df"
  from assms have chk: "''Date'' \<in> set ?cs \<or> ''date'' \<in> set (map lower ?cs)"
    by (auto simp: resolve_columns_def split: if_splits)
  then have dn: "''date'' \<in> normalize ` set ?cs" by (rule date_check_normalize)
  then have mo: "map_of (normalize_cols df) ''date'' = Some (latest ?cs ''date'')"
    by (simp add: normalize_cols_cols_dict map_of_cols_dict)
  from assms chk have "d = dict_get (normalize_cols df) ''date'' ''Date'' \<and>
      pick_mvrv_column df = Inr m \<and> p = map_of (normalize_cols df) ''price''"
    by (auto simp: resolve_columns_def Let_def split: if_splits sum.splits)
  with mo dn show ?thesis by (simp add: dict_get_def)
qed

lemma price_column_result:
  assumes "map_of (normalize_cols df) ''price'' = Some q"
  shows "q \<in> set (columns df) \<and> normalize q = ''price'' \<and> q = latest (columns df) ''price''"
proof -
  from assms have "(''price'', q) \<in> set (cols_dict (columns df))"
    by (simp add: normalize_cols_cols_dict map_of_SomeD)
  then show ?thesis using entry_normalize by blast
qed

text \<open>The last column of a normalized name, by its position.\<close>

lemma latest_last_index:
  "k \<in> normalize ` set cs \<longrightarrow>
     (\<exists>l < length cs. latest cs k = cs ! l \<and> normalize (cs ! l) = k \<and>
        (\<forall>l'. l < l' \<and> l' < length cs \<longrightarrow> normalize (cs ! l') \<noteq> k))"
proof (induction cs rule: rev_induct)
  case Nil
  then show ?case by simp
next
  case (snoc x xs)
  show ?case
  proof (cases "normalize x = k")
    case True
    then have "latest (xs @ [x]) k = (xs @ [x]) ! length xs" by (simp add: latest_def)
    moreover from True have "normalize ((xs @ [x]) ! length xs) = k" by simp
    ultimately show ?thesis by (intro impI exI [of _ "length xs"]) auto
  next
    case False
    show ?thesis
    proof
      assume "k \<in> normalize ` set (xs @ [x])"
      with False have "k \<in> normalize ` set xs" by auto
      with snoc obtain l where l: "l < length xs" "latest xs k = xs ! l" "normalize (xs ! l) = k"
        "\<forall>l'. l < l' \<and> l' < length xs \<longrightarrow> normalize (xs ! l') \<noteq> k"
        by blast
      from False have "latest (xs @ [x]) k = latest xs k" by (simp add: latest_def)
      with l(1,2) have a: "latest (xs @ [x]) k = (xs @ [x]) ! l" by (simp add: nth_append)
      from l(1,3) have b: "normalize ((xs @ [x]) ! l) = k" by (simp add: nth_append)
      have c: "\<forall>l'. l < l' \<and> l' < length (xs @ [x]) \<longrightarrow> normalize ((xs @ [x]) ! l') \<noteq> k"
      proof (intro allI impI)
        fix l'
        assume "l < l' \<and> l' < length (xs @ [x])"
        then consider "l < l' \<and> l' < length xs" | "l' = length xs" by fastforce
        then show "normalize ((xs @ [x]) ! l') \<noteq> k"
        proof cases
          case 1
          with l(4) show ?thesis by (simp add: nth_append)
        next
          case 2
          with False show ?thesis by simp
        qed
      qed
      from l(1) a b c
      show "\<exists>l < length (xs @ [x]). latest (xs @ [x]) k = (xs @ [x]) ! l \<and>
          normalize ((xs @ [x]) ! l) = k \<and>
          (\<forall>l'. l < l' \<and> l' < length (xs @ [x]) \<longrightarrow> normalize ((xs @ [x]) ! l') \<noteq> k)"
        by (intro exI [of _ l]) simp
    qed
  qed
qed

lemma latest_later:
  assumes "j < length cs" and "normalize (cs ! j) = k"
  shows "\<exists>l. j \<le> l \<and> l < length cs \<and> latest cs k = cs ! l \<and> normalize (cs ! l) = k \<and>
           (\<forall>l'. l < l' \<and> l' < length cs \<longrightarrow> normalize (cs ! l') \<noteq> k)"
proof -
  from assms have "k \<in> normalize ` set cs" by (metis imageI nth_mem)
  with latest_last_index [of k cs]
  obtain l where l: "l < length cs" "latest cs k = cs ! l" "normalize (cs ! l) = k"
    "\<forall>l'. l < l' \<and> l' < length cs \<longrightarrow> normalize (cs ! l') \<noteq> k"
    by blast
  from l(4) assms have "\<not> l < j" by blast
  then have "j \<le> l" by simp
  with l show ?thesis by blast
qed

lemma earlier_duplicate_not_latest:
  assumes "distinct cs" and "i < j" and "j < length cs"
    and "normalize (cs ! i) = normalize (cs ! j)"
  shows "latest cs (normalize (cs ! i)) \<noteq> cs ! i"
proof -
  from latest_later [OF assms(3), of "normalize (cs ! i)"] assms(4)
  obtain l where l: "j \<le> l" "l < length cs" "latest cs (normalize (cs ! i)) = cs ! l"
    by auto
  from assms(2,3) l(1,2) have "i < length cs" "i \<noteq> l" by auto
  with assms(1) l(2) have "cs ! l \<noteq> cs ! i" by (simp add: nth_eq_iff_index_eq)
  with l(3) show ?thesis by simp
qed


text \<open>
  Claim C2. For a non-empty table read from the response in which no column has the
  normalized name \<open>date\<close>, the check of line 97 fails and the run ends with the error
  that names the missing date column and lists the columns found. When the resolution
  succeeds, the date column is the one that the dictionary of normalized names gives for
  \<open>date\<close>: a column of the table whose normalized name is \<open>date\<close>, never the default
  of the lookup and never another column.
\<close>

theorem date_column_required:
  assumes "unwrap raw_text = Inr csv_text" and "read_csv lib csv_text = Inr df"
    and "\<not> df_empty df"
  shows "((\<forall>c \<in> set (columns df). normalize c \<noteq> ''date'') \<longrightarrow>
            resolve_columns df = Inl (ExpectedDateColumn (columns df)) \<and>
            process_text lib raw_text = Inl (ExpectedDateColumn (columns df))) \<and>
         (\<forall>d m p. resolve_columns df = Inr (d, m, p) \<longrightarrow>
            map_of (normalize_cols df) ''date'' = Some d \<and> d \<in> set (columns df) \<and>
            normalize d = ''date'')"
proof (intro conjI allI impI)
  assume n: "\<forall>c \<in> set (columns df). normalize c \<noteq> ''date''"
  then have "''date'' \<notin> normalize ` set (columns df)" by auto
  then have "\<not> (''Date'' \<in> set (columns df) \<or> ''date'' \<in> set (map lower (columns df)))"
    using date_check_normalize by blast
  then show r: "resolve_columns df = Inl (ExpectedDateColumn (columns df))"
    by (simp add: resolve_columns_def)
  with assms show "process_text lib raw_text = Inl (ExpectedDateColumn (columns df))"
    by (simp add: process_text_def)
next
  fix d m p
  assume "resolve_columns df = Inr (d, m, p)"
  then have r: "''date'' \<in> normalize ` set (columns df) \<and> d = latest (columns df) ''date'' \<and>
      map_of (normalize_cols df) ''date'' = Some d"
    using resolve_columns_result by blast
  then show "map_of (normalize_cols df) ''date'' = Some d" by simp
  from r latest_in [of "''date''" "columns df"]
  show "d \<in> set (columns df)" and "normalize d = ''date''" by simp_all
qed

theorem date_column_required_witness:
  "process_text
     \<lparr>read_csv = (\<lambda>s. Inr \<lparr>columns = [''Time'', ''STH_MVRV''],
                              rows = [\<lambda>c. if c = ''Time'' then Str ''2024-01-01'' else Num 1]\<rparr>),
      parse_number = (\<lambda>s. None :: int option), astype_str = (\<lambda>c. c),
      to_float = (\<lambda>x. x)\<rparr>
     ''Time,STH_MVRV''
     = Inl (ExpectedDateColumn [''Time'', ''STH_MVRV'']) \<and>
   resolve_columns \<lparr>columns = ['' Date'', ''STH_MVRV'', ''date''],
                    rows = [\<lambda>c. Num (1::int)]\<rparr>
     = Inr (''date'', ''STH_MVRV'', None) \<and>
   map_of (normalize_cols \<lparr>columns = ['' Date'', ''STH_MVRV'', ''date''],
                           rows = [\<lambda>c. Num (1::int)]\<rparr>) ''date'' = Some ''date'' \<and>
   normalize ''date'' = ''date''"
proof -
  let ?df1 = "\<lparr>columns = [''Time'', ''STH_MVRV''],
                rows = [\<lambda>c. if c = ''Time'' then Str ''2024-01-01'' else Num (1::int)]\<rparr>"
  let ?lib = "\<lparr>read_csv = (\<lambda>s. Inr ?df1), parse_number = (\<lambda>s. None :: int option),
                astype_str = (\<lambda>c. c), to_float = (\<lambda>x. x)\<rparr>"
  let ?df2 = "\<lparr>columns = ['' Date'', ''STH_MVRV'', ''date''], rows = [\<lambda>c. Num (1::int)]\<rparr>"
  have u1: "unwrap ''Time,STH_MVRV'' = Inr ''Time,STH_MVRV''" by code_simp
  have r1: "read_csv ?lib ''Time,STH_MVRV'' = Inr ?df1" by simp
  have e1: "\<not> df_empty ?df1" by (simp add: df_empty_def)
  have n1: "\<forall>c \<in> set (columns ?df1). normalize c \<noteq> ''date''" by code_simp
  have u2: "unwrap ''x'' = Inr ''x''" by code_simp
  have r2: "read_csv \<lparr>read_csv = (\<lambda>s. Inr ?df2), parse_number = (\<lambda>s. None :: int option),
                astype_str = (\<lambda>c. c), to_float = (\<lambda>x. x)\<rparr> ''x'' = Inr ?df2" by simp
  have e2: "\<not> df_empty ?df2" by (simp add: df_empty_def)
  have s2: "resolve_columns ?df2 = Inr (''date'', ''STH_MVRV'', None)" by code_simp
  from date_column_required [OF u1 r1 e1] n1
  have c1: "process_text ?lib ''Time,STH_MVRV'' = Inl (ExpectedDateColumn (columns ?df1))"
    by blast
  from date_column_required [OF u2 r2 e2] s2
  have c2: "map_of (normalize_cols ?df2) ''date'' = Some ''date'' \<and> normalize ''date'' = ''date''"
    by blast
  from c1 c2 s2 show ?thesis by simp
qed

text \<open>
  Claim C9. After a successful resolution the metric column is neither the date column
  nor the price column: the normalized names of the date and price columns are \<open>date\<close>
  and \<open>price\<close>, both in the exclusion set, and the normalized name of the metric column
  is not in it.
\<close>

theorem metric_column_distinct:
  assumes "resolve_columns df = Inr (d, m, p)"
  shows "m \<noteq> d \<and> p \<noteq> Some m \<and>
         ''date'' \<in> excluded \<and> ''price'' \<in> excluded \<and>
         normalize d = ''date'' \<and> (\<forall>q. p = Some q \<longrightarrow> normalize q = ''price'') \<and>
         normalize m \<notin> excluded"
proof -
  from resolve_columns_result [OF assms]
  have r: "''date'' \<in> normalize ` set (columns df)" "d = latest (columns df) ''date''"
    "pick_mvrv_column df = Inr m" "p = map_of (normalize_cols df) ''price''"
    by simp_all
  from r(1,2) latest_in [of "''date''" "columns df"] have nd: "normalize d = ''date''" by simp
  from pick_mvrv_column_result [OF r(3)] have nm: "normalize m \<notin> excluded" by simp
  have np: "\<forall>q. p = Some q \<longrightarrow> normalize q = ''price''"
    using r(4) price_column_result by metis
  from nd nm date_in_excluded have "m \<noteq> d" by auto
  moreover from np nm price_in_excluded have "p \<noteq> Some m" by auto
  ultimately show ?thesis using nd nm np date_in_excluded price_in_excluded by blast
qed

theorem metric_column_distinct_witness:
  "resolve_columns \<lparr>columns = [''Date'', ''Price'', ''STH_MVRV''], rows = [\<lambda>c. Num (1::int)]\<rparr>
     = Inr (''Date'', ''STH_MVRV'', Some ''Price'') \<and>
   ''STH_MVRV'' \<noteq> ''Date'' \<and> Some ''Price'' \<noteq> Some ''STH_MVRV'' \<and>
   normalize ''Price'' = ''price'' \<and> normalize ''STH_MVRV'' \<notin> excluded"
proof -
  let ?df = "\<lparr>columns = [''Date'', ''Price'', ''STH_MVRV''], rows = [\<lambda>c. Num (1::int)]\<rparr>"
  have h: "resolve_columns ?df = Inr (''Date'', ''STH_MVRV'', Some ''Price'')" by code_simp
  from metric_column_distinct [OF h] h show ?thesis by blast
qed

text \<open>
  Claim C10, as stated, says that an earlier column with the same normalized name as a
  later one is invisible to the resolution. Two pairs of tables that differ only by such
  an earlier column: with \<open>STH_MVRV\<close> before \<open>short_mvrv\<close> and \<open>sth_mvrv\<close> the metric
  column is \<open>sth_mvrv\<close>, without it \<open>short_mvrv\<close>; with \<open>Date\<close> before \<open>DATE \<close> (with a
  trailing blank) the resolution succeeds, without it the check of line 97 fails. In both
  the earlier column is not the one selected, yet it decides the result.
\<close>

theorem earlier_duplicate_visible_counterexample:
  "normalize ''STH_MVRV'' = normalize ''sth_mvrv'' \<and>
   pick_mvrv_column
     \<lparr>columns = [''STH_MVRV'', ''short_mvrv'', ''sth_mvrv''], rows = [\<lambda>c. Num (1::int)]\<rparr>
     = Inr ''sth_mvrv'' \<and>
   pick_mvrv_column \<lparr>columns = [''short_mvrv'', ''sth_mvrv''], rows = [\<lambda>c. Num (1::int)]\<rparr>
     = Inr ''short_mvrv'' \<and>
   normalize ''Date'' = normalize ''DATE '' \<and>
   resolve_columns \<lparr>columns = [''Date'', ''DATE '', ''mvrv''], rows = [\<lambda>c. Num (1::int)]\<rparr>
     = Inr (''DATE '', ''mvrv'', None) \<and>
   resolve_columns \<lparr>columns = [''DATE '', ''mvrv''], rows = [\<lambda>c. Num (1::int)]\<rparr>
     = Inl (ExpectedDateColumn [''DATE '', ''mvrv''])"
  by code_simp

text \<open>
  Claim C10, amended. Let two different columns, at the positions \<open>i < j\<close> of a table with
  pairwise different labels, have the same normalized name. The dictionary maps that name
  to the last column of that name in original order (at position \<open>j\<close> or later, with no
  column of that name after it), the earlier column is no value of the dictionary, the
  metric resolver never returns it, and a successful resolution has it neither as date,
  nor as metric, nor as price column.
\<close>

theorem earlier_duplicate_never_selected:
  assumes "distinct (columns df)" and "i < j" and "j < length (columns df)"
    and "normalize (columns df ! i) = normalize (columns df ! j)"
  shows "(\<exists>l. j \<le> l \<and> l < length (columns df) \<and>
            normalize (columns df ! l) = normalize (columns df ! j) \<and>
            (\<forall>l'. l < l' \<and> l' < length (columns df) \<longrightarrow>
               normalize (columns df ! l') \<noteq> normalize (columns df ! j)) \<and>
            map_of (normalize_cols df) (normalize (columns df ! j)) = Some (columns df ! l)) \<and>
         columns df ! i \<notin> snd ` set (normalize_cols df) \<and>
         pick_mvrv_column df \<noteq> Inr (columns df ! i) \<and>
         (\<forall>d m p. resolve_columns df = Inr (d, m, p) \<longrightarrow>
            d \<noteq> columns df ! i \<and> m \<noteq> columns df ! i \<and> p \<noteq> Some (columns df ! i))"
proof (intro conjI allI impI)
  let ?cs = "columns df"
  let ?k = "normalize (?cs ! j)"
  from assms(3) have "?k \<in> normalize ` set ?cs" by simp
  then have "map_of (normalize_cols df) ?k = Some (latest ?cs ?k)"
    by (simp add: normalize_cols_cols_dict map_of_cols_dict)
  with latest_later [OF assms(3), of ?k]
  show "\<exists>l. j \<le> l \<and> l < length ?cs \<and> normalize (?cs ! l) = ?k \<and>
          (\<forall>l'. l < l' \<and> l' < length ?cs \<longrightarrow> normalize (?cs ! l') \<noteq> ?k) \<and>
          map_of (normalize_cols df) ?k = Some (?cs ! l)"
    by auto
next
  let ?cs = "columns df"
  note nl = earlier_duplicate_not_latest [OF assms]
  show "?cs ! i \<notin> snd ` set (normalize_cols df)"
  proof
    assume "?cs ! i \<in> snd ` set (normalize_cols df)"
    then obtain k where "(k, ?cs ! i) \<in> set (cols_dict ?cs)"
      by (auto simp: normalize_cols_cols_dict)
    then have "normalize (?cs ! i) = k \<and> ?cs ! i = latest ?cs k"
      using entry_normalize by blast
    with nl show False by metis
  qed
next
  let ?cs = "columns df"
  note nl = earlier_duplicate_not_latest [OF assms]
  show "pick_mvrv_column df \<noteq> Inr (?cs ! i)"
    using pick_mvrv_column_result [of df "?cs ! i"] nl by auto
next
  fix d m p
  let ?cs = "columns df"
  note nl = earlier_duplicate_not_latest [OF assms]
  assume a: "resolve_columns df = Inr (d, m, p)"
  from resolve_columns_result [OF a]
  have r: "''date'' \<in> normalize ` set ?cs" "d = latest ?cs ''date''"
    "pick_mvrv_column df = Inr m" "p = map_of (normalize_cols df) ''price''"
    by simp_all
  from r(1,2) latest_in [of "''date''" ?cs] have "d = latest ?cs (normalize d)" by simp
  with nl show "d \<noteq> ?cs ! i" by metis
  from pick_mvrv_column_result [OF r(3)] nl show "m \<noteq> ?cs ! i" by metis
  show "p \<noteq> Some (?cs ! i)"
  proof
    assume "p = Some (?cs ! i)"
    with r(4) have "map_of (normalize_cols df) ''price'' = Some (?cs ! i)" by simp
    then have "normalize (?cs ! i) = ''price'' \<and> ?cs ! i = latest ?cs ''price''"
      using price_column_result by blast
    with nl show False by metis
  qed
qed

theorem earlier_duplicate_never_selected_witness:
  "map_of (normalize_cols \<lparr>columns = [''DATE'', ''Mvrv'', ''Date'', ''MVRV''], rows = [\<lambda>c. Num (1::int)]\<rparr>)
     ''mvrv'' = Some ''MVRV'' \<and>
   resolve_columns \<lparr>columns = [''DATE'', ''Mvrv'', ''Date'', ''MVRV''], rows = [\<lambda>c. Num (1::int)]\<rparr>
     = Inr (''Date'', ''MVRV'', None) \<and>
   pick_mvrv_column \<lparr>columns = [''DATE'', ''Mvrv'', ''Date'', ''MVRV''], rows = [\<lambda>c. Num (1::int)]\<rparr>
     \<noteq> Inr ''Mvrv'' \<and>
   ''Mvrv'' \<notin> snd ` set (normalize_cols
      \<lparr>columns = [''DATE'', ''Mvrv'', ''Date'', ''MVRV''], rows = [\<lambda>c. Num (1::int)]\<rparr>)"
proof -
  let ?df = "\<lparr>columns = [''DATE'', ''Mvrv'', ''Date'', ''MVRV''], rows = [\<lambda>c. Num (1::int)]\<rparr>"
  have h1: "distinct (columns ?df)" by simp
  have h2: "(1::nat) < 3" by simp
  have h3: "3 < length (columns ?df)" by simp
  have h4: "normalize (columns ?df ! 1) = normalize (columns ?df ! 3)" by code_simp
  have c1: "columns ?df ! 1 = ''Mvrv''" by simp
  have m: "map_of (normalize_cols ?df) ''mvrv'' = Some ''MVRV''" by code_simp
  have r: "resolve_columns ?df = Inr (''Date'', ''MVRV'', None)" by code_simp
  from earlier_duplicate_never_selected [OF h1 h2 h3 h4] c1
  have "pick_mvrv_column ?df \<noteq> Inr ''Mvrv'' \<and> ''Mvrv'' \<notin> snd ` set (normalize_cols ?df)"
    by simp
  with m r show ?thesis by simp
qed

section \<open>The output records\<close>

lemma to_numeric_coerce_cases:
  "to_numeric_coerce lib c = NaN \<or> (\<exists>x. to_numeric_coerce lib c = Num x)"
  by (simp add: to_numeric_coerce_def split: cell.splits option.splits)

lemma notna_to_numeric_coerce:
  "notna (to_numeric_coerce lib c) \<longleftrightarrow>
     (\<exists>x. c = Num x) \<or> (\<exists>s x. c = Str s \<and> parse_number lib s = Some x)"
  by (auto simp: notna_def to_numeric_coerce_def split: cell.splits option.splits)

text \<open>
  The cells that the loop reads from a converted row, when the three columns are
  different from each other (claim C9).
\<close>

lemma convert_row_cells:
  assumes "m \<noteq> d" and "p \<noteq> Some m" and "p \<noteq> Some d"
  shows "convert_row lib d m p row d = astype_str lib (row d)"
    and "convert_row lib d m p row m = to_numeric_coerce lib (row m)"
    and "p = Some q \<Longrightarrow> convert_row lib d m p row q = to_numeric_coerce lib (row q)"
  using assms by (auto simp: convert_row_def Let_def split: option.splits)

text \<open>
  The frame is projected without a \<open>KeyError\<close> when the three columns are columns of the
  frame, and the output is one record for each converted row that \<^verbatim>\<open>dropna\<close> keeps, in
  the order of the rows.
\<close>

lemma build_records_rows:
  assumes "d \<in> set (columns df)" and "m \<in> set (columns df)"
    and "\<forall>q. p = Some q \<longrightarrow> q \<in> set (columns df)"
  shows "build_records lib df (d, m, p) =
     Inr (map (make_item lib d m p)
           (filter (\<lambda>row. notna (row d) \<and> notna (row m))
             (map (convert_row lib d m p) (rows df))))"
  using assms by (cases p) (simp_all add: build_records_def Let_def)

text \<open>
  A row is kept exactly when its date cell is not missing after \<^verbatim>\<open>astype(str)\<close> and its
  metric cell is a number or a text that parses; its record has a price exactly when a
  price column was resolved and the row's price cell is a number or a text that parses.
  The metric and the price of the record are \<^verbatim>\<open>float\<close> of those numbers.
\<close>

lemma row_kept_iff:
  assumes "m \<noteq> d" and "p \<noteq> Some m" and "p \<noteq> Some d"
  shows "(notna (convert_row lib d m p row d) \<and> notna (convert_row lib d m p row m)) \<longleftrightarrow>
         (notna (astype_str lib (row d)) \<and> notna (to_numeric_coerce lib (row m)))"
  by (simp add: convert_row_cells(1,2) [OF assms])

lemma item_price_iff:
  assumes "m \<noteq> d" and "p \<noteq> Some m" and "p \<noteq> Some d"
  shows "price (make_item lib d m p (convert_row lib d m p row)) = Some y \<longleftrightarrow>
         (\<exists>q x. p = Some q \<and> to_numeric_coerce lib (row q) = Num x \<and> y = to_float lib x)"
proof (cases p)
  case None
  then show ?thesis by (simp add: make_item_def)
next
  case (Some q)
  from convert_row_cells(3) [OF assms Some]
  have c: "convert_row lib d m (Some q) row q = to_numeric_coerce lib (row q)"
    by (simp add: Some)
  from to_numeric_coerce_cases [of lib "row q"] show ?thesis
    by (auto simp: make_item_def Some c notna_def)
qed

lemma item_metric:
  assumes "m \<noteq> d" and "p \<noteq> Some m" and "p \<noteq> Some d"
    and "notna (convert_row lib d m p row m)"
  shows "\<exists>x. to_numeric_coerce lib (row m) = Num x \<and>
           sth_mvrv (make_item lib d m p (convert_row lib d m p row)) = to_float lib x"
proof -
  from convert_row_cells(2) [OF assms(1-3)]
  have c: "convert_row lib d m p row m = to_numeric_coerce lib (row m)" .
  from to_numeric_coerce_cases [of lib "row m"] assms(4) show ?thesis
    by (auto simp: make_item_def c notna_def)
qed

text \<open>
  Claim C6 says that a row yields a record only if its date value is present. The run
  below is on the response text with the lines \<^verbatim>\<open>Date,STH_MVRV\<close>, \<^verbatim>\<open>2024-01-01,1\<close> and
  \<^verbatim>\<open>,2\<close>, whose second row has no date, with \<^verbatim>\<open>astype(str)\<close> as pandas before 3.0
  does it: line 115 turns the missing date into the text \<^verbatim>\<open>nan\<close>, so the \<^verbatim>\<open>dropna\<close> of
  line 120 keeps the row and the output has a record with the date \<^verbatim>\<open>nan\<close>. The metric
  and price parts of the claim hold (\<open>row_kept_iff\<close>, \<open>item_price_iff\<close>).
\<close>

theorem missing_date_row_kept:
  "process_text
     \<lparr>read_csv = (\<lambda>s. if s = ''Date,STH_MVRV'' @ [newline] @ ''2024-01-01,1'' @ [newline] @ '',2''
                      then Inr \<lparr>columns = [''Date'', ''STH_MVRV''],
                                rows = [\<lambda>c. if c = ''Date'' then Str ''2024-01-01'' else Num 1,
                                        \<lambda>c. if c = ''Date'' then NaN else Num 2]\<rparr>
                      else Inl (PandasError ''other text'')),
      parse_number = (\<lambda>s. None),
      astype_str = astype_str_pre3 (\<lambda>x :: int. ''number''),
      to_float = (\<lambda>x. x)\<rparr>
     (''Date,STH_MVRV'' @ [newline] @ ''2024-01-01,1'' @ [newline] @ '',2'' @ [newline])
   = Inr [\<lparr>date = Str ''2024-01-01'', sth_mvrv = 1, price = None\<rparr>,
          \<lparr>date = Str ''nan'', sth_mvrv = 2, price = None\<rparr>]"
  by code_simp

end
